theory Spec2Isabelle
  imports Main "HOL-Library.Word" "HOL-Library.Multiset"
begin

unbundle bit_operations_syntax

section \<open>Machine types and failures\<close>

text \<open>
  Go's \<open>byte\<close>, \<open>uint16\<close> and \<open>uint32\<close> are words of that width: arithmetic wraps around
  and a shift by the full width gives 0. Go's \<open>int\<close> (64 bits on the usual platforms) is
  modelled as \<open>int\<close>: the products of image dimensions stay far below \<open>2 ^ 63\<close> for any
  buffer that fits in memory. Conversions \<open>uint32(x)\<close> and \<open>uint16(x)\<close> of an \<open>int\<close> are
  \<open>word_of_int\<close>, conversions between words are \<open>ucast\<close>.
\<close>

type_synonym byte = "8 word"
type_synonym uint16 = "16 word"
type_synonym uint32 = "32 word"

text \<open>
  A call fails either because the sink returned an error, which the code hands on
  unchanged, or because the Go runtime panics (index or slice bound out of range,
  negative length given to \<open>make\<close>).
\<close>

datatype error = IOError | Panic

section \<open>color.go: colors and color models\<close>

text \<open>
  \<open>color.Color\<close> is an interface with the single method \<open>RGBA\<close>. The two color types of
  the package are constructors of their own; every other implementation of the interface
  is represented by the four channel values its \<open>RGBA\<close> method returns.
\<close>

datatype Color =
    Gray32Color uint32
  | GrayFloat32Color uint32
  | ForeignColor uint32 uint32 uint32 uint32

fun RGBA :: "Color \<Rightarrow> uint32 \<times> uint32 \<times> uint32 \<times> uint32" where
  "RGBA (Gray32Color y) = (y, y, y, y)"
| "RGBA (GrayFloat32Color y) = (y, y, y, y)"
| "RGBA (ForeignColor r g b a) = (r, g, b, a)"

text \<open>
  \<open>y := (1284195221*uint32(r) + 2521145802*uint32(g) + 489626272*uint32(b) + 1<<31) >> 32\<close>:
  all operands are \<open>uint32\<close>, \<open>1<<31\<close> binds tighter than \<open>+\<close>, and the sum is shifted
  right by 32.
\<close>

definition luma :: "uint32 \<Rightarrow> uint32 \<Rightarrow> uint32 \<Rightarrow> uint32" where
  "luma r g b =
     drop_bit 32 (1284195221 * r + 2521145802 * g + 489626272 * b + push_bit 31 1)"

definition gray32Model :: "Color \<Rightarrow> Color" where
  "gray32Model c =
     (case c of
        Gray32Color _ \<Rightarrow> c
      | _ \<Rightarrow> (case RGBA c of (r, g, b, _) \<Rightarrow> Gray32Color (luma r g b)))"

text \<open>The float model tests for \<open>Gray32Color\<close> too, and builds a \<open>Gray32Color\<close>.\<close>

definition gray32FloatModel :: "Color \<Rightarrow> Color" where
  "gray32FloatModel c =
     (case c of
        Gray32Color _ \<Rightarrow> c
      | _ \<Rightarrow> (case RGBA c of (r, g, b, _) \<Rightarrow> Gray32Color (luma r g b)))"

text \<open>
  The value the specification gives for the conversion: the exact integer
  \<open>\<lfloor>(1284195221 r + 2521145802 g + 489626272 b + 2\<^sup>3\<^sup>1) / 2\<^sup>3\<^sup>2\<rfloor>\<close>.
\<close>

definition luma_spec :: "int \<Rightarrow> int \<Rightarrow> int \<Rightarrow> int" where
  "luma_spec r g b = (1284195221 * r + 2521145802 * g + 489626272 * b + 2 ^ 31) div 2 ^ 32"

section \<open>Rectangles of Go's image package\<close>

text \<open>
  \<open>image.Point\<close> and \<open>image.Rectangle\<close> belong to Go's standard library, which the
  package imports; the methods the package calls are written after that library.
  \<open>Intersect\<close> clips the first rectangle to the second and returns the zero rectangle
  when nothing is left.
\<close>

record Point =
  X :: int
  Y :: int

record Rectangle =
  Min_pt :: Point
  Max_pt :: Point

definition Pt :: "int \<Rightarrow> int \<Rightarrow> Point" where
  "Pt x y = \<lparr>X = x, Y = y\<rparr>"

definition ZR :: Rectangle where
  "ZR = \<lparr>Min_pt = Pt 0 0, Max_pt = Pt 0 0\<rparr>"

definition In :: "Point \<Rightarrow> Rectangle \<Rightarrow> bool" where
  "In p r \<longleftrightarrow>
     X (Min_pt r) \<le> X p \<and> X p < X (Max_pt r) \<and> Y (Min_pt r) \<le> Y p \<and> Y p < Y (Max_pt r)"

definition Empty :: "Rectangle \<Rightarrow> bool" where
  "Empty r \<longleftrightarrow> X (Min_pt r) \<ge> X (Max_pt r) \<or> Y (Min_pt r) \<ge> Y (Max_pt r)"

definition Size :: "Rectangle \<Rightarrow> Point" where
  "Size r = Pt (X (Max_pt r) - X (Min_pt r)) (Y (Max_pt r) - Y (Min_pt r))"

definition Intersect :: "Rectangle \<Rightarrow> Rectangle \<Rightarrow> Rectangle" where
  "Intersect r s =
     (let r1 = \<lparr>Min_pt = Pt (max (X (Min_pt r)) (X (Min_pt s))) (max (Y (Min_pt r)) (Y (Min_pt s))),
                Max_pt = Pt (min (X (Max_pt r)) (X (Max_pt s))) (min (Y (Max_pt r)) (Y (Max_pt s)))\<rparr>
      in if Empty r1 then ZR else r1)"

section \<open>Slices over a store of backing arrays\<close>

text \<open>
  A Go slice is a window (offset and length) on a backing array, and two slices may share
  one array. The store maps the address of each backing array to its contents; the nil
  slice has no array. Reading or writing index \<open>i\<close> panics unless \<open>0 \<le> i < len\<close>, and
  \<open>s[i:]\<close> panics unless \<open>0 \<le> i \<le> len\<close>.
\<close>

type_synonym addr = nat
type_synonym heap = "addr \<Rightarrow> uint32 list"

record slice =
  s_arr :: "addr option"
  s_off :: nat
  s_len :: nat

definition nil_slice :: slice where
  "nil_slice = \<lparr>s_arr = None, s_off = 0, s_len = 0\<rparr>"

definition slice_get :: "heap \<Rightarrow> slice \<Rightarrow> int \<Rightarrow> error + uint32" where
  "slice_get h s i =
     (if i < 0 \<or> int (s_len s) \<le> i then Inl Panic
      else case s_arr s of
             None \<Rightarrow> Inl Panic
           | Some a \<Rightarrow> Inr (h a ! (s_off s + nat i)))"

definition slice_set :: "heap \<Rightarrow> slice \<Rightarrow> int \<Rightarrow> uint32 \<Rightarrow> error + heap" where
  "slice_set h s i v =
     (if i < 0 \<or> int (s_len s) \<le> i then Inl Panic
      else case s_arr s of
             None \<Rightarrow> Inl Panic
           | Some a \<Rightarrow> Inr (h(a := (h a)[s_off s + nat i := v])))"

definition slice_from :: "slice \<Rightarrow> int \<Rightarrow> error + slice" where
  "slice_from s i =
     (if i < 0 \<or> int (s_len s) < i then Inl Panic
      else Inr (s\<lparr>s_off := s_off s + nat i, s_len := s_len s - nat i\<rparr>))"

text \<open>The elements a slice shows, in order.\<close>

definition slice_view :: "heap \<Rightarrow> slice \<Rightarrow> uint32 list" where
  "slice_view h s =
     (case s_arr s of None \<Rightarrow> [] | Some a \<Rightarrow> take (s_len s) (drop (s_off s) (h a)))"

text \<open>
  The runtime keeps every slice inside its backing array.
\<close>

definition slice_ok :: "heap \<Rightarrow> slice \<Rightarrow> bool" where
  "slice_ok h s \<longleftrightarrow>
     (case s_arr s of None \<Rightarrow> s_len s = 0 | Some a \<Rightarrow> s_off s + s_len s \<le> length (h a))"

section \<open>The pixel buffers Gray32 and GrayFloat32\<close>

text \<open>
  The structs \<open>Gray32\<close> and \<open>GrayFloat32\<close> have the same three fields. An
  \<open>image.Image\<close> is one of the two buffers or an image of another type, of which the
  encoder reads the bounds only.
\<close>

record PixelBuffer =
  Pix :: slice
  Stride :: int
  Rect :: Rectangle

datatype Image =
    Gray32 PixelBuffer
  | GrayFloat32 PixelBuffer
  | OtherImage Rectangle

fun Bounds :: "Image \<Rightarrow> Rectangle" where
  "Bounds (Gray32 p) = Rect p"
| "Bounds (GrayFloat32 p) = Rect p"
| "Bounds (OtherImage r) = r"

text \<open>The zero value \<open>&Gray32{}\<close>: nil \<open>Pix\<close>, stride 0, zero rectangle.\<close>

definition zero_buffer :: PixelBuffer where
  "zero_buffer = \<lparr>Pix = nil_slice, Stride = 0, Rect = ZR\<rparr>"

subsection \<open>Gray32\<close>

definition Gray32_PixOffset :: "PixelBuffer \<Rightarrow> int \<Rightarrow> int \<Rightarrow> int" where
  "Gray32_PixOffset p x y =
     (y - Y (Min_pt (Rect p))) * Stride p + (x - X (Min_pt (Rect p)))"

definition Gray32_Gray32At :: "heap \<Rightarrow> PixelBuffer \<Rightarrow> int \<Rightarrow> int \<Rightarrow> error + Color" where
  "Gray32_Gray32At h p x y =
     (if \<not> In (Pt x y) (Rect p) then Inr (Gray32Color 0)
      else case slice_get h (Pix p) (Gray32_PixOffset p x y) of
             Inl e \<Rightarrow> Inl e
           | Inr v \<Rightarrow> Inr (Gray32Color v))"

text \<open>\<open>SetGray32(x, y, c Gray32Color)\<close> stores \<open>c.Y\<close>; the argument is that field.\<close>

definition Gray32_SetGray32 :: "heap \<Rightarrow> PixelBuffer \<Rightarrow> int \<Rightarrow> int \<Rightarrow> uint32 \<Rightarrow> error + heap" where
  "Gray32_SetGray32 h p x y cY =
     (if \<not> In (Pt x y) (Rect p) then Inr h
      else slice_set h (Pix p) (Gray32_PixOffset p x y) cY)"

definition Gray32_SubImage :: "PixelBuffer \<Rightarrow> Rectangle \<Rightarrow> error + Image" where
  "Gray32_SubImage p r0 =
     (let r = Intersect r0 (Rect p) in
      if Empty r then Inr (Gray32 zero_buffer)
      else case slice_from (Pix p) (Gray32_PixOffset p (X (Min_pt r)) (Y (Min_pt r))) of
             Inl e \<Rightarrow> Inl e
           | Inr s \<Rightarrow> Inr (Gray32 \<lparr>Pix = s, Stride = Stride p, Rect = r\<rparr>))"

subsection \<open>GrayFloat32\<close>

definition GrayFloat32_PixOffset :: "PixelBuffer \<Rightarrow> int \<Rightarrow> int \<Rightarrow> int" where
  "GrayFloat32_PixOffset p x y =
     (y - Y (Min_pt (Rect p))) * Stride p + (x - X (Min_pt (Rect p)))"

text \<open>The getter of the float buffer returns a \<open>Gray32Color\<close> as well.\<close>

definition GrayFloat32_Gray32At :: "heap \<Rightarrow> PixelBuffer \<Rightarrow> int \<Rightarrow> int \<Rightarrow> error + Color" where
  "GrayFloat32_Gray32At h p x y =
     (if \<not> In (Pt x y) (Rect p) then Inr (Gray32Color 0)
      else case slice_get h (Pix p) (GrayFloat32_PixOffset p x y) of
             Inl e \<Rightarrow> Inl e
           | Inr v \<Rightarrow> Inr (Gray32Color v))"

definition GrayFloat32_SetGray32 ::
    "heap \<Rightarrow> PixelBuffer \<Rightarrow> int \<Rightarrow> int \<Rightarrow> uint32 \<Rightarrow> error + heap" where
  "GrayFloat32_SetGray32 h p x y cY =
     (if \<not> In (Pt x y) (Rect p) then Inr h
      else slice_set h (Pix p) (GrayFloat32_PixOffset p x y) cY)"

definition GrayFloat32_SubImage :: "PixelBuffer \<Rightarrow> Rectangle \<Rightarrow> error + Image" where
  "GrayFloat32_SubImage p r0 =
     (let r = Intersect r0 (Rect p) in
      if Empty r then Inr (GrayFloat32 zero_buffer)
      else case slice_from (Pix p) (GrayFloat32_PixOffset p (X (Min_pt r)) (Y (Min_pt r))) of
             Inl e \<Rightarrow> Inl e
           | Inr s \<Rightarrow> Inr (GrayFloat32 \<lparr>Pix = s, Stride = Stride p, Rect = r\<rparr>))"

text \<open>
  The invariant of the data model: the stride is not negative, \<open>Pix\<close> lies inside its
  backing array, and a non-empty rectangle of width \<open>w\<close> and height \<open>h\<close> has at least
  \<open>(h - 1) * stride + w\<close> samples.
\<close>

definition buffer_ok :: "heap \<Rightarrow> PixelBuffer \<Rightarrow> bool" where
  "buffer_ok h p \<longleftrightarrow>
     0 \<le> Stride p \<and> slice_ok h (Pix p) \<and>
     (Y (Size (Rect p)) - 1) * Stride p + X (Size (Rect p)) \<le> int (s_len (Pix p))"

section \<open>The sink\<close>

text \<open>
  An \<open>io.Writer\<close> takes byte slices and may refuse one. The model keeps the bytes
  accepted so far and, when the sink is bounded, the room left: a write that does not fit
  fails. A sink with \<open>room = None\<close> never fails.
\<close>

record Writer =
  written :: "byte list"
  room :: "nat option"

definition Write :: "Writer \<Rightarrow> byte list \<Rightarrow> error + Writer" where
  "Write w p =
     (case room w of
        None \<Rightarrow> Inr (w\<lparr>written := written w @ p\<rparr>)
      | Some c \<Rightarrow>
          if length p \<le> c then Inr (w\<lparr>written := written w @ p, room := Some (c - length p)\<rparr>)
          else Inl IOError)"

section \<open>Little-endian byte order\<close>

definition le16 :: "uint16 \<Rightarrow> byte list" where
  "le16 v = [ucast v, ucast (drop_bit 8 v)]"

definition le32 :: "uint32 \<Rightarrow> byte list" where
  "le32 v = [ucast v, ucast (drop_bit 8 v), ucast (drop_bit 16 v), ucast (drop_bit 24 v)]"

section \<open>tiff.go: the encoder\<close>

definition lengths :: "uint32 list" where
  "lengths = [0, 1, 1, 2, 4, 8]"

definition dtByte :: int where "dtByte = 1"
definition dtASCII :: int where "dtASCII = 2"
definition dtShort :: int where "dtShort = 3"
definition dtLong :: int where "dtLong = 4"
definition dtRational :: int where "dtRational = 5"

definition tImageWidth :: int where "tImageWidth = 256"
definition tImageLength :: int where "tImageLength = 257"
definition tBitsPerSample :: int where "tBitsPerSample = 258"
definition tCompression :: int where "tCompression = 259"
definition tPhotometricInterpretation :: int where "tPhotometricInterpretation = 262"
definition tStripOffsets :: int where "tStripOffsets = 273"
definition tSamplesPerPixel :: int where "tSamplesPerPixel = 277"
definition tRowsPerStrip :: int where "tRowsPerStrip = 278"
definition tStripByteCounts :: int where "tStripByteCounts = 279"
definition tXResolution :: int where "tXResolution = 282"
definition tYResolution :: int where "tYResolution = 283"
definition tResolutionUnit :: int where "tResolutionUnit = 296"
definition tPredictor :: int where "tPredictor = 317"
definition tColorMap :: int where "tColorMap = 320"
definition tExtraSamples :: int where "tExtraSamples = 338"
definition tSampleFormat :: int where "tSampleFormat = 339"

definition cNone :: uint32 where "cNone = 1"
definition ifdLen :: int where "ifdLen = 12"
definition prNone :: uint32 where "prNone = 1"
definition pRGB :: uint32 where "pRGB = 2"
definition prHorizontal :: uint32 where "prHorizontal = 2"

definition sampleFormat_UINT :: int where "sampleFormat_UINT = 1"
definition sampleFormat_IEEEFP :: int where "sampleFormat_IEEEFP = 3"

record ifdEntry =
  tag :: int
  dtype :: int
  data :: "uint32 list"

definition mkEntry :: "int \<Rightarrow> int \<Rightarrow> uint32 list \<Rightarrow> ifdEntry" where
  "mkEntry t dt ds = \<lparr>tag = t, dtype = dt, data = ds\<rparr>"

subsection \<open>putData\<close>

text \<open>
  \<open>putData\<close> walks \<open>e.data\<close> and writes each value at the head of \<open>p\<close>, which it then
  shortens. The result is the content of the region \<open>p\<close> covered at the call; a value of
  a datatype outside the three cases is skipped. \<open>p[0] = ...\<close>, \<open>enc.PutUint16(p, ...)\<close> and
  \<open>enc.PutUint32(p, ...)\<close> panic when \<open>p\<close> has fewer than 1, 2 and 4 bytes.
\<close>

fun putData :: "int \<Rightarrow> uint32 list \<Rightarrow> byte list \<Rightarrow> error + byte list" where
  "putData dt [] p = Inr p"
| "putData dt (d # ds) p =
     (if dt = dtByte \<or> dt = dtASCII then
        (if length p < 1 then Inl Panic
         else case putData dt ds (drop 1 p) of
                Inl e \<Rightarrow> Inl e
              | Inr q \<Rightarrow> Inr ((ucast d :: byte) # q))
      else if dt = dtShort then
        (if length p < 2 then Inl Panic
         else case putData dt ds (drop 2 p) of
                Inl e \<Rightarrow> Inl e
              | Inr q \<Rightarrow> Inr (le16 (ucast d) @ q))
      else if dt = dtLong \<or> dt = dtRational then
        (if length p < 4 then Inl Panic
         else case putData dt ds (drop 4 p) of
                Inl e \<Rightarrow> Inl e
              | Inr q \<Rightarrow> Inr (le32 d @ q))
      else putData dt ds p)"

subsection \<open>writeIFD\<close>

text \<open>The pointer area grows in steps of 1024 bytes until \<open>need\<close> bytes fit.\<close>

function newlen_loop :: "int \<Rightarrow> int \<Rightarrow> int" where
  "newlen_loop need newlen =
     (if need > newlen then newlen_loop need (newlen + 1024) else newlen)"
  by pat_completeness auto
termination
  by (relation "measure (\<lambda>(need, newlen). nat (need - newlen))") auto

declare newlen_loop.simps [simp del]

definition grow_parea :: "byte list \<Rightarrow> int \<Rightarrow> byte list" where
  "grow_parea parea need =
     (if need > int (length parea)
      then parea @ replicate (nat (newlen_loop need (int (length parea) + 1024)) - length parea) 0
      else parea)"

text \<open>
  One round of the loop over the sorted entries (\<open>writeEntry\<close>) and the loop
  (\<open>writeEntries\<close>). \<open>buf\<close> is the 12-byte array declared before the loop:
  it keeps its content from one entry to the next, so value bytes that an entry does not
  write are those of the entries before it. \<open>parea\<close> is the pointer area and \<open>po\<close>
  (\<open>o\<close> in the source) the offset of its free part.
\<close>

definition writeEntry ::
    "int \<Rightarrow> ifdEntry \<Rightarrow> Writer \<Rightarrow> byte list \<Rightarrow> byte list \<Rightarrow> int
      \<Rightarrow> error + (Writer \<times> byte list \<times> byte list \<times> int)" where
  "writeEntry pstart ent w buf parea po =
     (let buf1 = le16 (word_of_int (tag ent)) @ drop 2 buf;
          buf2 = take 2 buf1 @ le16 (word_of_int (dtype ent)) @ drop 4 buf1;
          count0 = (word_of_nat (length (data ent)) :: uint32);
          count = (if dtype ent = dtRational then count0 div 2 else count0);
          buf3 = take 4 buf2 @ le32 count @ drop 8 buf2
      in if dtype ent < 0 \<or> int (length lengths) \<le> dtype ent then Inl Panic
         else
           let datalen = uint (count * lengths ! nat (dtype ent)) in
           if datalen \<le> 4 then
             (case putData (dtype ent) (data ent) (drop 8 buf3) of
                Inl e \<Rightarrow> Inl e
              | Inr q \<Rightarrow>
                  let buf4 = take 8 buf3 @ q in
                  (case Write w buf4 of
                     Inl e \<Rightarrow> Inl e
                   | Inr w' \<Rightarrow> Inr (w', buf4, parea, po)))
           else
             (let parea1 = grow_parea parea (po + datalen) in
              case putData (dtype ent) (data ent) (take (nat datalen) (drop (nat po) parea1)) of
                Inl e \<Rightarrow> Inl e
              | Inr q \<Rightarrow>
                  let parea2 = take (nat po) parea1 @ q @ drop (nat (po + datalen)) parea1;
                      buf4 = take 8 buf3 @ le32 (word_of_int (pstart + po))
                  in (case Write w buf4 of
                        Inl e \<Rightarrow> Inl e
                      | Inr w' \<Rightarrow> Inr (w', buf4, parea2, po + datalen))))"

fun writeEntries ::
    "int \<Rightarrow> ifdEntry list \<Rightarrow> Writer \<Rightarrow> byte list \<Rightarrow> byte list \<Rightarrow> int
      \<Rightarrow> error + (Writer \<times> byte list \<times> int)" where
  "writeEntries pstart [] w buf parea po = Inr (w, parea, po)"
| "writeEntries pstart (ent # d) w buf parea po =
     (case writeEntry pstart ent w buf parea po of
        Inl e \<Rightarrow> Inl e
      | Inr (w', buf', parea', po') \<Rightarrow> writeEntries pstart d w' buf' parea' po')"

text \<open>
  \<open>sort.Sort(byTag(d))\<close> orders the entries by \<open>d[i].tag < d[j].tag\<close>. Go's sort is not
  stable; entries with distinct tags, as \<open>Encode\<close> builds them, have one sorted order.
\<close>

definition sortByTag :: "ifdEntry list \<Rightarrow> ifdEntry list" where
  "sortByTag d = sort_key tag d"

definition writeIFD :: "Writer \<Rightarrow> int \<Rightarrow> ifdEntry list \<Rightarrow> error + Writer" where
  "writeIFD w ifdOffset d0 =
     (let buf = replicate 12 (0 :: byte);
          parea = replicate 1024 (0 :: byte);
          pstart = ifdOffset + ifdLen * int (length d0) + 6;
          d = sortByTag d0
      in case Write w (le16 (word_of_nat (length d))) of
           Inl e \<Rightarrow> Inl e
         | Inr w1 \<Rightarrow>
             (case writeEntries pstart d w1 buf parea 0 of
                Inl e \<Rightarrow> Inl e
              | Inr (w2, parea', po) \<Rightarrow>
                  (case Write w2 (le32 0) of
                     Inl e \<Rightarrow> Inl e
                   | Inr w3 \<Rightarrow> Write w3 (take (nat po) parea'))))"

subsection \<open>encodeGray32 and encodeGrayFloat32\<close>

text \<open>
  The two functions have the same body. The inner loop fills the row buffer from
  \<open>pix[min .. max)\<close>, four bytes a sample; the outer loop writes the buffer once a row.
\<close>

function encode_row ::
    "uint32 list \<Rightarrow> bool \<Rightarrow> int \<Rightarrow> int \<Rightarrow> uint32 \<Rightarrow> byte list \<Rightarrow> nat \<Rightarrow> error + byte list" where
  "encode_row pix predictor i mx v0 buf off =
     (if i < mx then
        (if i < 0 \<or> int (length pix) \<le> i then Inl Panic
         else
           let v = pix ! nat i;
               v0' = (if predictor then v else v0);
               v1 = (if predictor then v - v0 else v)
           in if length buf \<le> off + 3 then Inl Panic
              else encode_row pix predictor (i + 1) mx v0'
                     (buf[off := ucast v1, off + 1 := ucast (drop_bit 8 v1),
                          off + 2 := ucast (drop_bit 16 v1), off + 3 := ucast (drop_bit 24 v1)])
                     (off + 4))
      else Inr buf)"
  by pat_completeness auto
termination
  by (relation "measure (\<lambda>(pix, predictor, i, mx, v0, buf, off). nat (mx - i))") auto

declare encode_row.simps [simp del]

function encode_rows ::
    "Writer \<Rightarrow> uint32 list \<Rightarrow> int \<Rightarrow> int \<Rightarrow> int \<Rightarrow> bool \<Rightarrow> byte list \<Rightarrow> int \<Rightarrow> error + Writer" where
  "encode_rows w pix dx dy stride predictor buf y =
     (if y < dy then
        (case encode_row pix predictor (y * stride + 0) (y * stride + dx) 0 buf 0 of
           Inl e \<Rightarrow> Inl e
         | Inr buf' \<Rightarrow>
             (case Write w buf' of
                Inl e \<Rightarrow> Inl e
              | Inr w' \<Rightarrow> encode_rows w' pix dx dy stride predictor buf' (y + 1)))
      else Inr w)"
  by pat_completeness auto
termination
  by (relation "measure (\<lambda>(w, pix, dx, dy, stride, predictor, buf, y). nat (dy - y))") auto

declare encode_rows.simps [simp del]

definition encodeGray32 ::
    "Writer \<Rightarrow> uint32 list \<Rightarrow> int \<Rightarrow> int \<Rightarrow> int \<Rightarrow> bool \<Rightarrow> error + Writer" where
  "encodeGray32 w pix dx dy stride predictor =
     (if dx * 4 < 0 then Inl Panic
      else encode_rows w pix dx dy stride predictor (replicate (nat (dx * 4)) 0) 0)"

definition encodeGrayFloat32 ::
    "Writer \<Rightarrow> uint32 list \<Rightarrow> int \<Rightarrow> int \<Rightarrow> int \<Rightarrow> bool \<Rightarrow> error + Writer" where
  "encodeGrayFloat32 w pix dx dy stride predictor =
     (if dx * 4 < 0 then Inl Panic
      else encode_rows w pix dx dy stride predictor (replicate (nat (dx * 4)) 0) 0)"

subsection \<open>Encode\<close>

text \<open>
  The list of entries \<open>Encode\<close> builds, from the size \<open>d\<close>, the raster length and the
  values its type switch has set. \<open>compression\<close> is \<open>cNone\<close>, the predictor is off and
  the color map is empty, as the function fixes them; so the switch on \<open>compression\<close> always
  takes its only case, which writes the offset of the directory.
\<close>

definition encodeIFD ::
    "Point \<Rightarrow> int \<Rightarrow> uint32 \<Rightarrow> uint32 \<Rightarrow> uint32 list \<Rightarrow> int \<Rightarrow> uint32 \<Rightarrow> ifdEntry list" where
  "encodeIFD d imageLen photometricInterpretation samplesPerPixel bitsPerSample SampleFormat
       extraSamples =
     (let compression = cNone;
          pr = prNone;
          colorMap = ([] :: uint32 list);
          ifd = [mkEntry tImageWidth dtShort [word_of_int (X d)],
                 mkEntry tImageLength dtShort [word_of_int (Y d)],
                 mkEntry tBitsPerSample dtShort bitsPerSample,
                 mkEntry tCompression dtShort [compression],
                 mkEntry tPhotometricInterpretation dtShort [photometricInterpretation],
                 mkEntry tStripOffsets dtLong [8],
                 mkEntry tSamplesPerPixel dtShort [samplesPerPixel],
                 mkEntry tRowsPerStrip dtShort [word_of_int (Y d)],
                 mkEntry tStripByteCounts dtLong [word_of_int imageLen],
                 mkEntry tSampleFormat dtShort [word_of_int SampleFormat],
                 mkEntry tXResolution dtRational [72, 1],
                 mkEntry tYResolution dtRational [72, 1],
                 mkEntry tResolutionUnit dtShort [2]];
          ifd1 = (if pr \<noteq> prNone then ifd @ [mkEntry tPredictor dtShort [pr]] else ifd);
          ifd2 = (if length colorMap \<noteq> 0 then ifd1 @ [mkEntry tColorMap dtShort colorMap]
                  else ifd1)
      in if extraSamples > 0 then ifd2 @ [mkEntry tExtraSamples dtShort [extraSamples]]
         else ifd2)"

definition Encode :: "heap \<Rightarrow> Writer \<Rightarrow> Image \<Rightarrow> error + Writer" where
  "Encode h w m =
     (let d = Size (Bounds m);
          predictor = False
      in case Write w [0x49, 0x49, 0x2A, 0x00] of
           Inl e \<Rightarrow> Inl e
         | Inr w1 \<Rightarrow>
             let imageLen = X d * Y d * 4 in
             (case Write w1 (le32 (word_of_int (imageLen + 8))) of
                Inl e \<Rightarrow> Inl e
              | Inr w2 \<Rightarrow>
                  (case m of
                     Gray32 p \<Rightarrow>
                       (case encodeGray32 w2 (slice_view h (Pix p)) (X d) (Y d) (Stride p)
                               predictor of
                          Inl e \<Rightarrow> Inl e
                        | Inr w3 \<Rightarrow>
                            writeIFD w3 (imageLen + 8)
                              (encodeIFD d imageLen 1 1 [32] sampleFormat_UINT 0))
                   | GrayFloat32 p \<Rightarrow>
                       (case encodeGrayFloat32 w2 (slice_view h (Pix p)) (X d) (Y d) (Stride p)
                               predictor of
                          Inl e \<Rightarrow> Inl e
                        | Inr w3 \<Rightarrow>
                            writeIFD w3 (imageLen + 8)
                              (encodeIFD d imageLen 1 1 [32] sampleFormat_IEEEFP 0))
                   | OtherImage r \<Rightarrow>
                       writeIFD w2 (imageLen + 8)
                         (encodeIFD d imageLen pRGB 4 [8, 8, 8, 8] sampleFormat_UINT 1))))"

section \<open>Reading the emitted file\<close>

text \<open>
  The file format of the encoder, read back: little-endian 16- and 32-bit values, the
  offset of the directory in bytes 4 to 7, the 12-byte directory entries (tag, datatype,
  count, value) after a 16-bit entry count, and the value of a short or long field.
\<close>

fun le16_dec :: "byte list \<Rightarrow> uint16" where
  "le16_dec (b0 # b1 # _) = ucast b0 OR push_bit 8 (ucast b1)"
| "le16_dec _ = 0"

fun le32_dec :: "byte list \<Rightarrow> uint32" where
  "le32_dec (b0 # b1 # b2 # b3 # _) =
     ucast b0 OR push_bit 8 (ucast b1) OR push_bit 16 (ucast b2) OR push_bit 24 (ucast b3)"
| "le32_dec _ = 0"


definition tiff_ifd_offset :: "byte list \<Rightarrow> nat" where
  "tiff_ifd_offset bs = unat (le32_dec (drop 4 bs))"

definition tiff_entries :: "byte list \<Rightarrow> nat \<Rightarrow> byte list list" where
  "tiff_entries bs pos =
     map (\<lambda>k. take 12 (drop (pos + 2 + 12 * k) bs)) [0..<unat (le16_dec (drop pos bs))]"

definition entry_tag :: "byte list \<Rightarrow> nat" where
  "entry_tag e = unat (le16_dec e)"

definition entry_type :: "byte list \<Rightarrow> nat" where
  "entry_type e = unat (le16_dec (drop 2 e))"

definition entry_count :: "byte list \<Rightarrow> nat" where
  "entry_count e = unat (le32_dec (drop 4 e))"

definition find_entry :: "byte list list \<Rightarrow> nat \<Rightarrow> byte list option" where
  "find_entry es t = find (\<lambda>e. entry_tag e = t) es"

definition field_type :: "byte list list \<Rightarrow> nat \<Rightarrow> nat option" where
  "field_type es t = map_option entry_type (find_entry es t)"

text \<open>The value of a field that holds one short (datatype 3) or one long (datatype 4).\<close>

definition field_value :: "byte list list \<Rightarrow> nat \<Rightarrow> nat option" where
  "field_value es t =
     (case find_entry es t of
        None \<Rightarrow> None
      | Some e \<Rightarrow>
          if entry_count e \<noteq> 1 then None
          else if entry_type e = 3 then Some (unat (le16_dec (drop 8 e)))
          else if entry_type e = 4 then Some (unat (le32_dec (drop 8 e)))
          else None)"

text \<open>
  The layout of a file with one strip and one directory: magic bytes, offset of the
  directory, raster, entry count, entries, the zero offset of the next directory, and the
  values that do not fit an entry. \<open>L\<close> is the length of the raster the header announces.
\<close>

definition tiff_file :: "int \<Rightarrow> byte list \<Rightarrow> byte list list \<Rightarrow> byte list \<Rightarrow> byte list" where
  "tiff_file L raster es tail =
     [0x49, 0x49, 0x2A, 0x00] @ le32 (word_of_int (L + 8)) @ raster
       @ le16 (word_of_nat (length es)) @ concat es @ le32 0 @ tail"

text \<open>The two resolution values, 72/1 each, which follow the directory.\<close>

definition res_tail :: "byte list" where
  "res_tail = le32 72 @ le32 1 @ le32 72 @ le32 1"

text \<open>The samples of a \<open>w\<close> by \<open>h\<close> image in row-major order, rows \<open>stride\<close> apart.\<close>

definition raster_rows :: "uint32 list \<Rightarrow> nat \<Rightarrow> nat \<Rightarrow> nat \<Rightarrow> uint32 list" where
  "raster_rows pix w h stride = concat (map (\<lambda>r. take w (drop (r * stride) pix)) [0..<h])"

text \<open>
  The entries of the directory as \<open>Encode\<close> emits them for a gray buffer (13 entries) and
  for an image of another type (14 entries), in file order. \<open>off\<close> is the offset of the
  directory and \<open>sf\<close> the sample format. The last two bytes of a short value are the
  bytes 10 and 11 of the entry written before.
\<close>

definition gray_ifd :: "int \<Rightarrow> int \<Rightarrow> int \<Rightarrow> int \<Rightarrow> int \<Rightarrow> byte list list" where
  "gray_ifd W H L off sf =
     (let p2 = le32 (word_of_int (off + 170)) in
      [le16 256 @ le16 3 @ le32 1 @ le16 (word_of_int W) @ [0, 0],
       le16 257 @ le16 3 @ le32 1 @ le16 (word_of_int H) @ [0, 0],
       le16 258 @ le16 3 @ le32 1 @ le16 32 @ [0, 0],
       le16 259 @ le16 3 @ le32 1 @ le16 1 @ [0, 0],
       le16 262 @ le16 3 @ le32 1 @ le16 1 @ [0, 0],
       le16 273 @ le16 4 @ le32 1 @ le32 8,
       le16 277 @ le16 3 @ le32 1 @ le16 1 @ [0, 0],
       le16 278 @ le16 3 @ le32 1 @ le16 (word_of_int H) @ [0, 0],
       le16 279 @ le16 4 @ le32 1 @ le32 (word_of_int L),
       le16 282 @ le16 5 @ le32 1 @ le32 (word_of_int (off + 162)),
       le16 283 @ le16 5 @ le32 1 @ p2,
       le16 296 @ le16 3 @ le32 1 @ le16 2 @ drop 2 p2,
       le16 339 @ le16 3 @ le32 1 @ le16 (word_of_int sf) @ drop 2 p2])"

definition other_ifd :: "int \<Rightarrow> int \<Rightarrow> int \<Rightarrow> int \<Rightarrow> byte list list" where
  "other_ifd W H L off =
     (let p1 = le32 (word_of_int (off + 174));
          p3 = le32 (word_of_int (off + 190))
      in
      [le16 256 @ le16 3 @ le32 1 @ le16 (word_of_int W) @ [0, 0],
       le16 257 @ le16 3 @ le32 1 @ le16 (word_of_int H) @ [0, 0],
       le16 258 @ le16 3 @ le32 4 @ p1,
       le16 259 @ le16 3 @ le32 1 @ le16 1 @ drop 2 p1,
       le16 262 @ le16 3 @ le32 1 @ le16 2 @ drop 2 p1,
       le16 273 @ le16 4 @ le32 1 @ le32 8,
       le16 277 @ le16 3 @ le32 1 @ le16 4 @ [0, 0],
       le16 278 @ le16 3 @ le32 1 @ le16 (word_of_int H) @ [0, 0],
       le16 279 @ le16 4 @ le32 1 @ le32 (word_of_int L),
       le16 282 @ le16 5 @ le32 1 @ le32 (word_of_int (off + 182)),
       le16 283 @ le16 5 @ le32 1 @ p3,
       le16 296 @ le16 3 @ le32 1 @ le16 2 @ drop 2 p3,
       le16 338 @ le16 3 @ le32 1 @ le16 1 @ drop 2 p3,
       le16 339 @ le16 3 @ le32 1 @ le16 1 @ drop 2 p3])"


text \<open>The bytes \<open>Encode\<close> writes to a fresh sink that never fails.\<close>

definition fresh_sink :: Writer where
  "fresh_sink = \<lparr>written = [], room = None\<rparr>"

definition Encode_bytes :: "heap \<Rightarrow> Image \<Rightarrow> byte list" where
  "Encode_bytes h m = (case Encode h fresh_sink m of Inl e \<Rightarrow> [] | Inr w \<Rightarrow> written w)"

section \<open>Example data\<close>

text \<open>A 2 by 1 buffer with the samples 1 and \<open>0xFFFFFFFF\<close>.\<close>

definition ex_heap :: heap where
  "ex_heap = (\<lambda>a. if a = 0 then [1, 0xFFFFFFFF] else [])"

definition ex_buffer :: PixelBuffer where
  "ex_buffer = \<lparr>Pix = \<lparr>s_arr = Some 0, s_off = 0, s_len = 2\<rparr>, Stride = 2,
                 Rect = \<lparr>Min_pt = Pt 0 0, Max_pt = Pt 2 1\<rparr>\<rparr>"


text \<open>A 65536 by 1 buffer and a 32768 by 32768 buffer of zero samples.\<close>

definition wide_heap :: heap where
  "wide_heap = (\<lambda>a. replicate 65536 0)"

definition wide_buffer :: PixelBuffer where
  "wide_buffer = \<lparr>Pix = \<lparr>s_arr = Some 0, s_off = 0, s_len = 65536\<rparr>, Stride = 65536,
                   Rect = \<lparr>Min_pt = Pt 0 0, Max_pt = Pt 65536 1\<rparr>\<rparr>"

definition huge_heap :: heap where
  "huge_heap = (\<lambda>a. replicate 1073741824 0)"

definition huge_buffer :: PixelBuffer where
  "huge_buffer = \<lparr>Pix = \<lparr>s_arr = Some 0, s_off = 0, s_len = 1073741824\<rparr>, Stride = 32768,
                   Rect = \<lparr>Min_pt = Pt 0 0, Max_pt = Pt 32768 32768\<rparr>\<rparr>"

section \<open>Color models\<close>

lemma luma_zero: "luma r g b = 0"
  by (simp add: luma_def)

lemma gray32Model_foreign: "gray32Model (ForeignColor r g b a) = Gray32Color 0"
  by (simp add: gray32Model_def luma_zero)

text \<open>
  C3. The conversion of a color that is not buffer-native should be the luma
  \<open>\<lfloor>(1284195221 r + 2521145802 g + 489626272 b + 2\<^sup>3\<^sup>1) / 2\<^sup>3\<^sup>2\<rfloor>\<close>. The code computes the
  sum in 32 bits and shifts it right by 32, so both models return the sample 0: for the
  white color \<open>r = g = b = a = 65535\<close> the luma is 65535 and the code returns 0.
\<close>

theorem luma_white_is_zero:
  "gray32Model (ForeignColor 65535 65535 65535 65535) = Gray32Color 0 \<and>
   gray32FloatModel (ForeignColor 65535 65535 65535 65535) = Gray32Color 0 \<and>
   luma_spec 65535 65535 65535 = 65535"
  by (simp add: gray32Model_def gray32FloatModel_def luma_zero luma_spec_def)

text \<open>
  C4. Each color model should return a color of its own type unchanged. \<open>gray32Model\<close>
  does; \<open>gray32FloatModel\<close> tests for \<open>Gray32Color\<close> instead of \<open>GrayFloat32Color\<close>, so
  the float color with sample 5 is converted, to the \<open>Gray32Color\<close> with sample 0.
\<close>

theorem float_model_not_identity:
  "gray32FloatModel (GrayFloat32Color 5) = Gray32Color 0 \<and>
   gray32FloatModel (GrayFloat32Color 5) \<noteq> GrayFloat32Color 5 \<and>
   gray32Model (Gray32Color 5) = Gray32Color 5"
  by (simp add: gray32Model_def gray32FloatModel_def luma_zero)

section \<open>Pixel access\<close>

lemma PixOffset_in_range:
  assumes ok: "0 \<le> Stride p" "(Y (Size (Rect p)) - 1) * Stride p + X (Size (Rect p)) \<le> n"
    and inr: "In (Pt x y) (Rect p)"
  shows "0 \<le> Gray32_PixOffset p x y \<and> Gray32_PixOffset p x y < n"
proof -
  let ?dy = "y - Y (Min_pt (Rect p))" and ?dx = "x - X (Min_pt (Rect p))"
  from inr have dx: "0 \<le> ?dx" "?dx < X (Size (Rect p))"
    and dy: "0 \<le> ?dy" "?dy \<le> Y (Size (Rect p)) - 1"
    by (simp_all add: In_def Size_def Pt_def)
  have m1: "0 \<le> ?dy * Stride p" using dy(1) ok(1) by simp
  have m2: "?dy * Stride p \<le> (Y (Size (Rect p)) - 1) * Stride p"
    using dy(2) ok(1) by (rule mult_right_mono)
  show ?thesis unfolding Gray32_PixOffset_def using m1 m2 dx ok(2) by linarith
qed

lemma slice_set_get:
  assumes "slice_ok h s" "0 \<le> i" "i < int (s_len s)"
  shows "\<exists>h'. slice_set h s i v = Inr h' \<and> slice_get h' s i = Inr v"
  using assms by (auto simp: slice_ok_def slice_set_def slice_get_def split: option.splits)

lemma ex_buffer_ok: "buffer_ok ex_heap ex_buffer"
  by (simp add: buffer_ok_def ex_heap_def ex_buffer_def slice_ok_def Size_def Pt_def)

text \<open>
  C6. In a buffer that satisfies the invariant of the data model, of either kind, setting
  the pixel at a point of the bounds to the value \<open>v\<close> succeeds, and reading the pixel
  afterwards returns the color with sample \<open>v\<close>.
\<close>

theorem set_then_get:
  assumes "buffer_ok h p" and "In (Pt x y) (Rect p)"
  shows "(\<exists>h'. Gray32_SetGray32 h p x y v = Inr h' \<and>
               Gray32_Gray32At h' p x y = Inr (Gray32Color v)) \<and>
         (\<exists>h'. GrayFloat32_SetGray32 h p x y v = Inr h' \<and>
               GrayFloat32_Gray32At h' p x y = Inr (Gray32Color v))"
proof -
  let ?i = "Gray32_PixOffset p x y"
  from assms have r: "0 \<le> ?i \<and> ?i < int (s_len (Pix p))"
    by (intro PixOffset_in_range) (simp_all add: buffer_ok_def)
  from assms(1) have "slice_ok h (Pix p)" by (simp add: buffer_ok_def)
  with r obtain h' where h': "slice_set h (Pix p) ?i v = Inr h'" "slice_get h' (Pix p) ?i = Inr v"
    using slice_set_get by blast
  have eq: "GrayFloat32_PixOffset p x y = ?i"
    by (simp add: GrayFloat32_PixOffset_def Gray32_PixOffset_def)
  show ?thesis
    using assms(2) h'
    by (simp add: Gray32_SetGray32_def Gray32_Gray32At_def GrayFloat32_SetGray32_def
        GrayFloat32_Gray32At_def eq)
qed

theorem set_then_get_witness:
  "buffer_ok ex_heap ex_buffer \<and> In (Pt 1 0) (Rect ex_buffer) \<and>
   (\<exists>h'. Gray32_SetGray32 ex_heap ex_buffer 1 0 7 = Inr h' \<and>
         Gray32_Gray32At h' ex_buffer 1 0 = Inr (Gray32Color 7)) \<and>
   (\<exists>h'. GrayFloat32_SetGray32 ex_heap ex_buffer 1 0 7 = Inr h' \<and>
         GrayFloat32_Gray32At h' ex_buffer 1 0 = Inr (Gray32Color 7))"
proof -
  have i: "In (Pt 1 0) (Rect ex_buffer)"
    by (simp add: In_def Pt_def ex_buffer_def)
  show ?thesis
    using set_then_get [OF ex_buffer_ok i, of 7] ex_buffer_ok i by simp
qed

text \<open>
  C7. At a point outside the bounds of a buffer, of either kind, reading returns the zero
  color and writing returns the store as it was; neither fails.
\<close>

theorem out_of_bounds_noop:
  assumes "\<not> In (Pt x y) (Rect p)"
  shows "Gray32_Gray32At h p x y = Inr (Gray32Color 0) \<and>
         Gray32_SetGray32 h p x y v = Inr h \<and>
         GrayFloat32_Gray32At h p x y = Inr (Gray32Color 0) \<and>
         GrayFloat32_SetGray32 h p x y v = Inr h"
  using assms
  by (simp add: Gray32_Gray32At_def Gray32_SetGray32_def GrayFloat32_Gray32At_def
      GrayFloat32_SetGray32_def)

theorem out_of_bounds_noop_witness:
  "\<not> In (Pt 2 0) (Rect ex_buffer) \<and>
   Gray32_Gray32At ex_heap ex_buffer 2 0 = Inr (Gray32Color 0) \<and>
   Gray32_SetGray32 ex_heap ex_buffer 2 0 9 = Inr ex_heap \<and>
   GrayFloat32_Gray32At ex_heap ex_buffer 2 0 = Inr (Gray32Color 0) \<and>
   GrayFloat32_SetGray32 ex_heap ex_buffer 2 0 9 = Inr ex_heap"
proof -
  have o: "\<not> In (Pt 2 0) (Rect ex_buffer)"
    by (simp add: In_def Pt_def ex_buffer_def)
  show ?thesis
    using out_of_bounds_noop [OF o, of ex_heap 9] o by simp
qed

section \<open>Sub-images\<close>

lemma Empty_Intersect_iff:
  "Empty (Intersect r s) \<longleftrightarrow> (\<forall>x y. \<not> (In (Pt x y) r \<and> In (Pt x y) s))"
proof
  assume e: "Empty (Intersect r s)"
  show "\<forall>x y. \<not> (In (Pt x y) r \<and> In (Pt x y) s)"
  proof (intro allI notI)
    fix x y assume "In (Pt x y) r \<and> In (Pt x y) s"
    then have "\<not> Empty (Intersect r s)"
      by (auto simp: In_def Pt_def Intersect_def Empty_def Let_def)
    with e show False by simp
  qed
next
  assume a: "\<forall>x y. \<not> (In (Pt x y) r \<and> In (Pt x y) s)"
  show "Empty (Intersect r s)"
  proof (rule ccontr)
    assume ne: "\<not> Empty (Intersect r s)"
    let ?x = "max (X (Min_pt r)) (X (Min_pt s))" and ?y = "max (Y (Min_pt r)) (Y (Min_pt s))"
    from ne have "In (Pt ?x ?y) r \<and> In (Pt ?x ?y) s"
      by (auto simp: In_def Pt_def Intersect_def Empty_def Let_def ZR_def split: if_splits)
    with a show False by blast
  qed
qed

text \<open>
  C8. When no point lies both in the rectangle \<open>r\<close> and in the bounds of the buffer,
  \<open>SubImage\<close> of either kind returns, without a panic, the zero buffer: its rectangle is
  empty and its \<open>Pix\<close> is the nil slice, which has length 0 and no backing array, so it
  shares none with the parent.
\<close>

theorem SubImage_empty:
  assumes "\<forall>x y. \<not> (In (Pt x y) r \<and> In (Pt x y) (Rect p))"
  shows "Gray32_SubImage p r = Inr (Gray32 zero_buffer) \<and>
         GrayFloat32_SubImage p r = Inr (GrayFloat32 zero_buffer) \<and>
         Empty (Rect zero_buffer) \<and> s_len (Pix zero_buffer) = 0 \<and>
         s_arr (Pix zero_buffer) = None \<and> slice_view h (Pix zero_buffer) = []"
proof -
  from assms have "Empty (Intersect r (Rect p))"
    by (simp add: Empty_Intersect_iff)
  then show ?thesis
    by (simp add: Gray32_SubImage_def GrayFloat32_SubImage_def zero_buffer_def nil_slice_def
        ZR_def Empty_def Pt_def slice_view_def)
qed

theorem SubImage_empty_witness:
  "(\<forall>x y. \<not> (In (Pt x y) \<lparr>Min_pt = Pt 5 5, Max_pt = Pt 9 9\<rparr> \<and> In (Pt x y) (Rect ex_buffer))) \<and>
   Gray32_SubImage ex_buffer \<lparr>Min_pt = Pt 5 5, Max_pt = Pt 9 9\<rparr> = Inr (Gray32 zero_buffer) \<and>
   GrayFloat32_SubImage ex_buffer \<lparr>Min_pt = Pt 5 5, Max_pt = Pt 9 9\<rparr>
     = Inr (GrayFloat32 zero_buffer)"
proof -
  have d: "\<forall>x y. \<not> (In (Pt x y) \<lparr>Min_pt = Pt 5 5, Max_pt = Pt 9 9\<rparr> \<and> In (Pt x y) (Rect ex_buffer))"
    by (simp add: In_def Pt_def ex_buffer_def)
  show ?thesis
    using SubImage_empty [OF d] d by simp
qed

section \<open>Bytes, words and the sink\<close>

text \<open>
  Lengths of the encodings, decoding after encoding, the value of a converted \<open>int\<close>, and
  what a write to the sink leaves behind.
\<close>

lemma length_le16 [simp]: "length (le16 v) = 2"
  by (simp add: le16_def)

lemma length_le32 [simp]: "length (le32 v) = 4"
  by (simp add: le32_def)

lemma Write_unbounded: "room w = None \<Longrightarrow> Write w p = Inr (w\<lparr>written := written w @ p\<rparr>)"
  by (simp add: Write_def)

lemma le16_dec_le16 [simp]: "le16_dec (le16 v @ r) = v"
  unfolding le16_def
  apply simp
  apply (rule bit_word_eqI)
  apply (auto simp: bit_simps)
  done

lemma le32_dec_le32 [simp]: "le32_dec (le32 v @ r) = v"
proof -
  have "ucast (ucast v :: byte) OR push_bit 8 (ucast (ucast (drop_bit 8 v) :: byte))
          OR push_bit 16 (ucast (ucast (drop_bit 16 v) :: byte))
          OR push_bit 24 (ucast (ucast (drop_bit 24 v) :: byte)) = v"
  proof (rule bit_word_eqI)
    fix n assume "n < LENGTH(32)"
    then show "bit (ucast (ucast v :: byte) OR push_bit 8 (ucast (ucast (drop_bit 8 v) :: byte))
          OR push_bit 16 (ucast (ucast (drop_bit 16 v) :: byte))
          OR push_bit 24 (ucast (ucast (drop_bit 24 v) :: byte)) :: uint32) n = bit v n"
      by (cases "n < 8"; cases "n < 16"; cases "n < 24") (auto simp: bit_simps)
  qed
  then show ?thesis by (simp add: le32_def)
qed

lemma le16_dec_le16_only [simp]: "le16_dec (le16 v) = v"
  using le16_dec_le16[of v "[]"] by simp

lemma le32_dec_le32_only [simp]: "le32_dec (le32 v) = v"
  using le32_dec_le32[of v "[]"] by simp

lemma unat_word16_of_int: "unat (word_of_int k :: uint16) = nat (k mod 65536)"
  by (simp add: unat_eq_nat_uint uint_word_of_int take_bit_eq_mod)

lemma unat_word32_of_int: "unat (word_of_int k :: uint32) = nat (k mod 4294967296)"
  by (simp add: unat_eq_nat_uint uint_word_of_int take_bit_eq_mod)


lemma ucast_word_of_int_32_16: "(ucast (word_of_int x :: uint32) :: uint16) = word_of_int x"
  by (simp add: ucast_eq word_of_int_eq_iff take_bit_take_bit uint_word_of_int_eq)

lemma numeral_add_word: "(numeral n :: uint32) + word_of_int x = word_of_int x + numeral n"
  by (simp add: add.commute)

lemma drop2_le32_8: "drop 2 (le32 8) = [0, 0]"
  by (simp add: le32_def)

lemma replicate2: "replicate 2 x = [x, x]"
  by (simp add: numeral_eq_Suc)

lemma le16_8: "le16 8 = [8, 0]"
  by (simp add: le16_def)

lemma le32_1: "le32 1 = [1, 0, 0, 0]"
  by (simp add: le32_def)

lemma le32_max: "le32 0xFFFFFFFF = [0xFF, 0xFF, 0xFF, 0xFF]"
  by (simp add: le32_def)

lemma concat_le32_concat:
  "concat (map (\<lambda>xs. concat (map le32 xs)) xss) = concat (map le32 (concat xss))"
  by (induction xss) simp_all

lemma length_concat_le32: "length (concat (map le32 xs)) = 4 * length xs"
  by (induction xs) simp_all

lemma length_concat_uniform:
  "(\<And>x. x \<in> set xs \<Longrightarrow> length (f x) = w) \<Longrightarrow> length (concat (map f xs)) = w * length xs"
  by (induction xs) simp_all


lemma fresh_room: "room fresh_sink = None"
  by (simp add: fresh_sink_def)

lemma Pt_sel [simp]: "X (Pt x y) = x" "Y (Pt x y) = y"
  by (simp_all add: Pt_def)

section \<open>The directory writer\<close>

subsection \<open>The entries of Encode, one by one\<close>

text \<open>
  One round of the loop for each shape of entry that \<open>Encode\<close> builds: a single short, a
  single long, a rational, and the four shorts of BitsPerSample. Then the sorted lists and
  the bytes \<open>writeIFD\<close> produces for them.
\<close>

lemma writeEntry_short1:
  assumes "room w = None" "length buf = 12"
  shows "writeEntry pstart (mkEntry t dtShort [v]) w buf parea po =
     (let e = le16 (word_of_int t) @ le16 3 @ le32 1 @ le16 (ucast v) @ drop 10 buf
      in Inr (w\<lparr>written := written w @ e\<rparr>, e, parea, po))"
  using assms
  by (simp add: writeEntry_def mkEntry_def dtShort_def dtRational_def dtByte_def dtASCII_def
      lengths_def Let_def Write_unbounded)

lemma writeEntry_long1:
  assumes "room w = None" "length buf = 12"
  shows "writeEntry pstart (mkEntry t dtLong [v]) w buf parea po =
     (let e = le16 (word_of_int t) @ le16 4 @ le32 1 @ le32 v
      in Inr (w\<lparr>written := written w @ e\<rparr>, e, parea, po))"
  using assms
  by (simp add: writeEntry_def mkEntry_def dtShort_def dtLong_def dtRational_def dtByte_def dtASCII_def
      lengths_def Let_def Write_unbounded)

lemma writeEntry_rational1:
  assumes "room w = None" "length buf = 12" "0 \<le> po" "po + 8 \<le> int (length parea)"
  shows "writeEntry pstart (mkEntry t dtRational [a, b]) w buf parea po =
     (let e = le16 (word_of_int t) @ le16 5 @ le32 1 @ le32 (word_of_int (pstart + po))
      in Inr (w\<lparr>written := written w @ e\<rparr>, e,
              take (nat po) parea @ le32 a @ le32 b @ drop (nat (po + 8)) parea, po + 8))"
  using assms
  by (simp add: writeEntry_def mkEntry_def dtShort_def dtLong_def dtRational_def dtByte_def dtASCII_def
      lengths_def Let_def Write_unbounded grow_parea_def)

lemma writeEntry_short4:
  assumes "room w = None" "length buf = 12" "0 \<le> po" "po + 8 \<le> int (length parea)"
  shows "writeEntry pstart (mkEntry t dtShort [a, b, c, d]) w buf parea po =
     (let e = le16 (word_of_int t) @ le16 3 @ le32 4 @ le32 (word_of_int (pstart + po))
      in Inr (w\<lparr>written := written w @ e\<rparr>, e,
              take (nat po) parea @ le16 (ucast a) @ le16 (ucast b) @ le16 (ucast c) @ le16 (ucast d)
                @ drop (nat (po + 8)) parea, po + 8))"
  using assms
  by (simp add: writeEntry_def mkEntry_def dtShort_def dtLong_def dtRational_def dtByte_def dtASCII_def
      lengths_def Let_def Write_unbounded grow_parea_def)

lemmas tag_defs = tImageWidth_def tImageLength_def tBitsPerSample_def tCompression_def
      tPhotometricInterpretation_def tStripOffsets_def tSamplesPerPixel_def tRowsPerStrip_def
      tStripByteCounts_def tXResolution_def tYResolution_def tResolutionUnit_def
      tSampleFormat_def tExtraSamples_def

lemma sortByTag_gray:
  "sortByTag (encodeIFD d L 1 1 [32] sf 0) =
     [mkEntry tImageWidth dtShort [word_of_int (X d)],
      mkEntry tImageLength dtShort [word_of_int (Y d)],
      mkEntry tBitsPerSample dtShort [32],
      mkEntry tCompression dtShort [1],
      mkEntry tPhotometricInterpretation dtShort [1],
      mkEntry tStripOffsets dtLong [8],
      mkEntry tSamplesPerPixel dtShort [1],
      mkEntry tRowsPerStrip dtShort [word_of_int (Y d)],
      mkEntry tStripByteCounts dtLong [word_of_int L],
      mkEntry tXResolution dtRational [72, 1],
      mkEntry tYResolution dtRational [72, 1],
      mkEntry tResolutionUnit dtShort [2],
      mkEntry tSampleFormat dtShort [word_of_int sf]]"
  by (simp add: sortByTag_def encodeIFD_def Let_def mkEntry_def cNone_def prNone_def
      tImageWidth_def tImageLength_def tBitsPerSample_def tCompression_def
      tPhotometricInterpretation_def tStripOffsets_def tSamplesPerPixel_def tRowsPerStrip_def
      tStripByteCounts_def tXResolution_def tYResolution_def tResolutionUnit_def
      tSampleFormat_def)

lemma sortByTag_other:
  "sortByTag (encodeIFD d L pRGB 4 [8, 8, 8, 8] sf 1) =
     [mkEntry tImageWidth dtShort [word_of_int (X d)],
      mkEntry tImageLength dtShort [word_of_int (Y d)],
      mkEntry tBitsPerSample dtShort [8, 8, 8, 8],
      mkEntry tCompression dtShort [1],
      mkEntry tPhotometricInterpretation dtShort [2],
      mkEntry tStripOffsets dtLong [8],
      mkEntry tSamplesPerPixel dtShort [4],
      mkEntry tRowsPerStrip dtShort [word_of_int (Y d)],
      mkEntry tStripByteCounts dtLong [word_of_int L],
      mkEntry tXResolution dtRational [72, 1],
      mkEntry tYResolution dtRational [72, 1],
      mkEntry tResolutionUnit dtShort [2],
      mkEntry tExtraSamples dtShort [1],
      mkEntry tSampleFormat dtShort [word_of_int sf]]"
  by (simp add: sortByTag_def encodeIFD_def Let_def mkEntry_def cNone_def prNone_def pRGB_def
      tImageWidth_def tImageLength_def tBitsPerSample_def tCompression_def
      tPhotometricInterpretation_def tStripOffsets_def tSamplesPerPixel_def tRowsPerStrip_def
      tStripByteCounts_def tXResolution_def tYResolution_def tResolutionUnit_def
      tSampleFormat_def tExtraSamples_def)

lemma length_encodeIFD_gray: "length (encodeIFD d L 1 1 [32] sf 0) = 13"
  by (simp add: encodeIFD_def Let_def cNone_def prNone_def)

lemma length_encodeIFD_other: "length (encodeIFD d L pRGB 4 [8, 8, 8, 8] sf 1) = 14"
  by (simp add: encodeIFD_def Let_def cNone_def prNone_def)

lemma length_gray_ifd: "length (gray_ifd W H L off sf) = 13"
  by (simp add: gray_ifd_def Let_def)

lemma length_other_ifd: "length (other_ifd W H L off) = 14"
  by (simp add: other_ifd_def Let_def)

lemma writeIFD_gray:
  assumes "room w = None"
  shows "writeIFD w off (encodeIFD (Pt W H) L 1 1 [32] sf 0) =
     Inr (w\<lparr>written := written w @ le16 13 @ concat (gray_ifd W H L off sf) @ le32 0
                 @ le32 72 @ le32 1 @ le32 72 @ le32 1\<rparr>)"
  using assms
  unfolding writeIFD_def sortByTag_gray length_encodeIFD_gray
  by (simp add: Let_def Write_unbounded writeEntry_short1 writeEntry_long1 writeEntry_rational1
      ifdLen_def gray_ifd_def Pt_def ucast_word_of_int_32_16 numeral_add_word
      drop2_le32_8 replicate2 tag_defs)

lemma writeIFD_other:
  assumes "room w = None"
  shows "writeIFD w off (encodeIFD (Pt W H) L pRGB 4 [8, 8, 8, 8] sampleFormat_UINT 1) =
     Inr (w\<lparr>written := written w @ le16 14 @ concat (other_ifd W H L off) @ le32 0
                 @ [8, 0, 8, 0, 8, 0, 8, 0] @ le32 72 @ le32 1 @ le32 72 @ le32 1\<rparr>)"
  using assms
  unfolding writeIFD_def sortByTag_other length_encodeIFD_other
  by (simp add: Let_def Write_unbounded writeEntry_short1 writeEntry_long1 writeEntry_rational1
      writeEntry_short4 ifdLen_def other_ifd_def Pt_def ucast_word_of_int_32_16 numeral_add_word
      drop2_le32_8 replicate2 tag_defs sampleFormat_UINT_def le16_8)

subsection \<open>Any list of entries\<close>













section \<open>The raster\<close>

text \<open>
  With the predictor off, the inner loop overwrites the row buffer with the encodings of
  \<open>pix[min .. max)\<close>, and the outer loop writes the rows one after the other.
\<close>

lemma length_slice_view: "slice_ok h s \<Longrightarrow> length (slice_view h s) = s_len s"
  by (auto simp: slice_ok_def slice_view_def split: option.splits)

lemma length_raster_rows:
  assumes "0 < h \<Longrightarrow> (h - 1) * stride + w \<le> length pix"
  shows "length (raster_rows pix w h stride) = w * h"
proof -
  have "length (take w (drop (r * stride) pix)) = w" if "r \<in> set [0..<h]" for r
  proof -
    from that have r: "r < h" by simp
    then have "r \<le> h - 1" by simp
    then have "r * stride \<le> (h - 1) * stride" by (rule mult_le_mono1)
    moreover have "(h - 1) * stride + w \<le> length pix" using assms r by simp
    ultimately have "r * stride + w \<le> length pix" by linarith
    then show ?thesis by simp
  qed
  then have "length (concat (map (\<lambda>r. take w (drop (r * stride) pix)) [0..<h])) = w * length [0..<h]"
    by (rule length_concat_uniform)
  then show ?thesis by (simp add: raster_rows_def)
qed

lemma raster_rows_dense:
  "raster_rows pix w h w = take (w * h) pix"
proof (induction h)
  case 0
  show ?case by (simp add: raster_rows_def)
next
  case (Suc h)
  have "raster_rows pix w (Suc h) w = raster_rows pix w h w @ take w (drop (h * w) pix)"
    by (simp add: raster_rows_def)
  also have "\<dots> = take (w * h) pix @ take w (drop (w * h) pix)"
    by (simp add: Suc.IH mult.commute)
  also have "\<dots> = take (w * h + w) pix"
    by (simp add: take_add)
  finally show ?case by (simp add: add.commute)
qed

lemma take_update4:
  assumes "off + 4 \<le> length buf"
  shows "take (off + 4) (buf[off := a, off + 1 := b, off + 2 := c, off + 3 := d])
           = take off buf @ [a, b, c, d]"
proof (rule nth_equalityI)
  show "length (take (off + 4) (buf[off := a, off + 1 := b, off + 2 := c, off + 3 := d]))
          = length (take off buf @ [a, b, c, d])"
    using assms by simp
next
  fix i assume "i < length (take (off + 4) (buf[off := a, off + 1 := b, off + 2 := c, off + 3 := d]))"
  then have i: "i < off + 4" by simp
  consider "i < off" | "i = off" | "i = off + 1" | "i = off + 2" | "i = off + 3"
    using i by linarith
  then show "take (off + 4) (buf[off := a, off + 1 := b, off + 2 := c, off + 3 := d]) ! i
               = (take off buf @ [a, b, c, d]) ! i"
    using assms by cases (simp_all add: nth_append nth_list_update)
qed

lemma encode_row_False:
  assumes "0 \<le> i" "mx \<le> int (length pix)" "length buf = off + 4 * nat (mx - i)"
  shows "encode_row pix False i mx v0 buf off =
           Inr (take off buf @ concat (map le32 (take (nat (mx - i)) (drop (nat i) pix))))"
  using assms
proof (induction pix "False" i mx v0 buf off rule: encode_row.induct)
  case (1 pix i mx v0 buf off)
  show ?case
  proof (cases "i < mx")
    case False
    then show ?thesis using "1.prems" by (simp add: encode_row.simps)
  next
    case True
    let ?v = "pix ! nat i"
    let ?buf = "buf[off := ucast ?v, off + 1 := ucast (drop_bit 8 ?v),
                    off + 2 := ucast (drop_bit 16 ?v), off + 3 := ucast (drop_bit 24 ?v)]"
    have inb: "\<not> (i < 0 \<or> int (length pix) \<le> i)" using True "1.prems" by simp
    have room: "off + 4 \<le> length buf" "\<not> length buf \<le> off + 3"
      using True "1.prems" by simp_all
    have len: "length ?buf = (off + 4) + 4 * nat (mx - (i + 1))"
      using True "1.prems" by simp
    have ih: "encode_row pix False (i + 1) mx v0 ?buf (off + 4) =
           Inr (take (off + 4) ?buf @ concat (map le32 (take (nat (mx - (i + 1))) (drop (nat (i + 1)) pix))))"
      using "1.hyps"[OF True inb refl refl refl] room(2) len "1.prems" by simp
    have tk: "take (off + 4) ?buf = take off buf @ le32 ?v"
      using take_update4[OF room(1)] by (simp add: le32_def)
    have n: "nat (mx - i) = Suc (nat (mx - (i + 1)))" using True by simp
    have "nat i < length pix" using inb by linarith
    then have d: "drop (nat i) pix = ?v # drop (nat (i + 1)) pix"
      using inb by (simp add: Cons_nth_drop_Suc nat_add_distrib)
    have "encode_row pix False i mx v0 buf off = encode_row pix False (i + 1) mx v0 ?buf (off + 4)"
      using True inb room(2) by (subst encode_row.simps) (simp add: Let_def)
    also note ih
    also have "take (off + 4) ?buf @ concat (map le32 (take (nat (mx - (i + 1))) (drop (nat (i + 1)) pix)))
         = take off buf @ concat (map le32 (take (nat (mx - i)) (drop (nat i) pix)))"
      unfolding tk by (simp add: n d)
    finally show ?thesis .
  qed
qed

lemma encode_rows_False:
  assumes "room w = None" "0 \<le> dx" "0 \<le> stride" "0 \<le> y" "length buf = nat (dx * 4)"
    and "y < dy \<Longrightarrow> (dy - 1) * stride + dx \<le> int (length pix)"
  shows "encode_rows w pix dx dy stride False buf y =
           Inr (w\<lparr>written := written w @
                  concat (map (\<lambda>r. concat (map le32 (take (nat dx) (drop (r * nat stride) pix))))
                              [nat y..<nat dy])\<rparr>)"
  using assms
proof (induction w pix dx dy stride "False" buf y rule: encode_rows.induct)
  case (1 w pix dx dy stride buf y)
  show ?case
  proof (cases "y < dy")
    case False
    then show ?thesis using "1.prems" by (simp add: encode_rows.simps)
  next
    case True
    let ?row = "concat (map le32 (take (nat dx) (drop (nat y * nat stride) pix)))"
    let ?w = "w\<lparr>written := written w @ ?row\<rparr>"
    have "y * stride \<le> (dy - 1) * stride"
      using True "1.prems"(3) by (intro mult_right_mono) simp_all
    then have fit: "y * stride + dx \<le> int (length pix)"
      using "1.prems"(6)[OF True] by linarith
    have ys: "0 \<le> y * stride" using "1.prems" by simp
    have nys: "nat (y * stride) = nat y * nat stride"
      using "1.prems" by (simp add: nat_mult_distrib)
    have row: "encode_row pix False (y * stride + 0) (y * stride + dx) 0 buf 0 = Inr ?row"
      using encode_row_False[of "y * stride" "y * stride + dx" pix buf 0 0] ys fit "1.prems"
      by (simp add: nys nat_mult_distrib)
    have lrow: "length ?row = nat (dx * 4)"
    proof -
      have "nat y * nat stride + nat dx \<le> length pix"
        using fit "1.prems" nys by (metis nat_add_distrib nat_int nat_mono ys)
      then have "length (take (nat dx) (drop (nat y * nat stride) pix)) = nat dx" by simp
      then show ?thesis
        using "1.prems"(2) by (simp add: length_concat comp_def sum_list_triv nat_mult_distrib)
    qed
    have wr: "Write w ?row = Inr ?w" using "1.prems"(1) by (simp add: Write_unbounded)
    have ih: "encode_rows ?w pix dx dy stride False ?row (y + 1) =
           Inr (?w\<lparr>written := written ?w @
                  concat (map (\<lambda>r. concat (map le32 (take (nat dx) (drop (r * nat stride) pix))))
                              [nat (y + 1)..<nat dy])\<rparr>)"
      using "1.hyps"[OF True row wr] "1.prems" lrow by simp
    have up: "[nat y..<nat dy] = nat y # [nat (y + 1)..<nat dy]"
      using True "1.prems"(4) by (simp add: upt_conv_Cons nat_add_distrib)
    have "encode_rows w pix dx dy stride False buf y
            = encode_rows ?w pix dx dy stride False ?row (y + 1)"
      using True row wr by (subst encode_rows.simps) simp
    then show ?thesis by (simp add: ih up)
  qed
qed

lemma encodeGray32_ok:
  assumes "room w = None" "0 \<le> dx" "0 \<le> stride"
    and "0 < dy \<Longrightarrow> (dy - 1) * stride + dx \<le> int (length pix)"
  shows "encodeGray32 w pix dx dy stride False =
           Inr (w\<lparr>written := written w @
                 concat (map le32 (raster_rows pix (nat dx) (nat dy) (nat stride)))\<rparr>)"
  using encode_rows_False[of w dx stride 0 "replicate (nat (dx * 4)) 0" dy pix] assms
  by (simp add: encodeGray32_def raster_rows_def concat_le32_concat [symmetric] cong: map_cong)


lemma raster_length:
  assumes "buffer_ok h p" "Size (Rect p) = Pt W H" "0 \<le> W"
  shows "length (concat (map le32 (raster_rows (slice_view h (Pix p)) (nat W) (nat H) (nat (Stride p)))))
           = nat (W * H * 4)"
proof -
  let ?v = "slice_view h (Pix p)"
  have st: "0 \<le> Stride p" using assms(1) by (simp add: buffer_ok_def)
  have fit: "(nat H - 1) * nat (Stride p) + nat W \<le> length ?v" if "0 < nat H"
  proof -
    from that have H: "0 < H" by simp
    have "(H - 1) * Stride p + W \<le> int (length ?v)"
      using assms(1,2) by (simp add: buffer_ok_def length_slice_view)
    moreover have "int ((nat H - 1) * nat (Stride p) + nat W) = (H - 1) * Stride p + W"
      using H st assms(3) by (simp add: of_nat_diff)
    ultimately show ?thesis by linarith
  qed
  have "length (raster_rows ?v (nat W) (nat H) (nat (Stride p))) = nat W * nat H"
    using fit by (rule length_raster_rows)
  moreover have "nat (W * H * 4) = 4 * (nat W * nat H)"
  proof (cases "0 \<le> H")
    case True
    then show ?thesis using assms(3) by (simp add: nat_mult_distrib)
  next
    case False
    then have "W * H \<le> 0" using assms(3) by (simp add: mult_nonneg_nonpos)
    then show ?thesis using False by (simp add: mult.commute)
  qed
  ultimately show ?thesis by (simp add: length_concat_le32)
qed

section \<open>The layout of the file\<close>

text \<open>
  The whole output of \<open>Encode\<close> for each kind of image, and what the reading functions
  find in a file of that layout.
\<close>

lemma Encode_Gray32:
  assumes "room w = None" "buffer_ok h p" "Size (Rect p) = Pt W H" "0 \<le> W"
  shows "Encode h w (Gray32 p) =
     Inr (w\<lparr>written := written w @
            tiff_file (W * H * 4)
              (concat (map le32 (raster_rows (slice_view h (Pix p)) (nat W) (nat H) (nat (Stride p)))))
              (gray_ifd W H (W * H * 4) (W * H * 4 + 8) 1) res_tail\<rparr>)"
proof -
  have fit: "0 < H \<Longrightarrow> (H - 1) * Stride p + W \<le> int (length (slice_view h (Pix p)))"
    using assms(2,3) by (simp add: buffer_ok_def length_slice_view)
  have st: "0 \<le> Stride p" using assms(2) by (simp add: buffer_ok_def)
  have enc: "encodeGray32 w2 (slice_view h (Pix p)) W H (Stride p) False =
      Inr (w2\<lparr>written := written w2 @
             concat (map le32 (raster_rows (slice_view h (Pix p)) (nat W) (nat H) (nat (Stride p))))\<rparr>)"
    if "room w2 = None" for w2
    using encodeGray32_ok[OF that assms(4) st fit] by simp
  show ?thesis
    using assms(1)
    by (simp add: Encode_def Let_def assms(3) Write_unbounded enc writeIFD_gray tiff_file_def
        length_gray_ifd sampleFormat_UINT_def res_tail_def)
qed


lemma Encode_OtherImage:
  assumes "room w = None" "Size r = Pt W H"
  shows "Encode h w (OtherImage r) =
     Inr (w\<lparr>written := written w @
            tiff_file (W * H * 4) [] (other_ifd W H (W * H * 4) (W * H * 4 + 8))
              ([8, 0, 8, 0, 8, 0, 8, 0] @ res_tail)\<rparr>)"
  using assms(1)
  by (simp add: Encode_def Let_def assms(2) Write_unbounded writeIFD_other tiff_file_def
      length_other_ifd res_tail_def)

lemma tiff_file_magic: "take 4 (tiff_file L r es t) = [0x49, 0x49, 0x2A, 0x00]"
  by (simp add: tiff_file_def)

lemma tiff_file_offset: "le32_dec (drop 4 (tiff_file L r es t)) = word_of_int (L + 8)"
  by (simp add: tiff_file_def)

lemma tiff_file_raster: "length r = n \<Longrightarrow> take n (drop 8 (tiff_file L r es t)) = r"
  by (simp add: tiff_file_def)

lemma chunk12:
  "(\<And>e. e \<in> set es \<Longrightarrow> length e = 12) \<Longrightarrow> k < length es
     \<Longrightarrow> take 12 (drop (12 * k) (concat es @ rest)) = es ! k"
proof (induction es arbitrary: k)
  case Nil
  then show ?case by simp
next
  case (Cons e es)
  show ?case
  proof (cases k)
    case 0
    then show ?thesis using Cons.prems by simp
  next
    case (Suc j)
    have "take 12 (drop (12 * j) (concat es @ rest)) = es ! j"
      using Cons.prems Suc by (intro Cons.IH) simp_all
    moreover have "length e = 12" using Cons.prems by simp
    ultimately show ?thesis using Suc by simp
  qed
qed

lemma tiff_file_entries:
  assumes "length r = n" "length es < 65536" "\<And>e. e \<in> set es \<Longrightarrow> length e = 12"
  shows "tiff_entries (tiff_file L r es t) (8 + n) = es"
proof -
  let ?ifd = "le16 (word_of_nat (length es)) @ concat es @ le32 0 @ t"
  let ?pre = "[0x49, 0x49, 0x2A, 0x00] @ le32 (word_of_int (L + 8)) @ r"
  have "tiff_file L r es t = ?pre @ ?ifd" by (simp add: tiff_file_def)
  moreover have "length ?pre = 8 + n" using assms(1) by simp
  ultimately have d: "drop (8 + n) (tiff_file L r es t) = ?ifd"
    by (metis append_eq_conv_conj)
  have cnt: "unat (le16_dec (drop (8 + n) (tiff_file L r es t))) = length es"
    unfolding d using assms(2) by (simp add: unat_of_nat)
  have ent: "take 12 (drop (8 + n + 2 + 12 * k) (tiff_file L r es t)) = es ! k"
    if "k < length es" for k
  proof -
    have "drop (8 + n + 2 + 12 * k) (tiff_file L r es t) = drop (12 * k) (drop 2 (drop (8 + n) (tiff_file L r es t)))"
      by (simp add: add.commute add.left_commute)
    also have "\<dots> = drop (12 * k) (concat es @ le32 0 @ t)"
      unfolding d by simp
    finally have e: "drop (8 + n + 2 + 12 * k) (tiff_file L r es t)
                       = drop (12 * k) (concat es @ le32 0 @ t)" .
    show ?thesis unfolding e using assms(3) that by (rule chunk12)
  qed
  have "tiff_entries (tiff_file L r es t) (8 + n) = map (\<lambda>k. es ! k) [0..<length es]"
    unfolding tiff_entries_def cnt
  proof (rule map_cong[OF refl])
    fix k assume "k \<in> set [0..<length es]"
    then have "k < length es" by simp
    then show "take 12 (drop (8 + n + 2 + 12 * k) (tiff_file L r es t)) = es ! k" by (rule ent)
  qed
  then show ?thesis by (simp add: map_nth)
qed

lemma entry_tag_le16 [simp]: "entry_tag (le16 t @ r) = unat t"
  by (simp add: entry_tag_def)

lemma entry_type_le16 [simp]: "entry_type (le16 t @ le16 dt @ r) = unat dt"
  by (simp add: entry_type_def)

lemma entry_count_le32 [simp]: "entry_count (le16 t @ le16 dt @ le32 c @ r) = unat c"
  by (simp add: entry_count_def)

lemma short_value_le16 [simp]: "le16_dec (drop 8 (le16 t @ le16 dt @ le32 c @ le16 v @ r)) = v"
  by simp

lemma long_value_le32 [simp]: "le32_dec (drop 8 (le16 t @ le16 dt @ le32 c @ le32 v)) = v"
  by simp

lemma gray_ifd_fields:
  "field_type (gray_ifd W H L off sf) 256 = Some 3"
  "field_value (gray_ifd W H L off sf) 256 = Some (unat (word_of_int W :: uint16))"
  "field_type (gray_ifd W H L off sf) 257 = Some 3"
  "field_value (gray_ifd W H L off sf) 257 = Some (unat (word_of_int H :: uint16))"
  "field_value (gray_ifd W H L off sf) 258 = Some 32"
  "field_value (gray_ifd W H L off sf) 279 = Some (unat (word_of_int L :: uint32))"
  "field_value (gray_ifd W H L off sf) 339 = Some (unat (word_of_int sf :: uint16))"
  by (simp_all add: gray_ifd_def Let_def field_type_def field_value_def find_entry_def)

lemma other_ifd_fields:
  "field_type (other_ifd W H L off) 256 = Some 3"
  "field_value (other_ifd W H L off) 256 = Some (unat (word_of_int W :: uint16))"
  "field_type (other_ifd W H L off) 257 = Some 3"
  "field_value (other_ifd W H L off) 257 = Some (unat (word_of_int H :: uint16))"
  "field_type (other_ifd W H L off) 279 = Some 4"
  "field_value (other_ifd W H L off) 279 = Some (unat (word_of_int L :: uint32))"
  by (simp_all add: other_ifd_def Let_def field_type_def field_value_def find_entry_def)

lemma gray_ifd_len12: "e \<in> set (gray_ifd W H L off sf) \<Longrightarrow> length e = 12"
  by (auto simp: gray_ifd_def Let_def)

lemma other_ifd_len12: "e \<in> set (other_ifd W H L off) \<Longrightarrow> length e = 12"
  by (auto simp: other_ifd_def Let_def)


lemma other_ifd_tags:
  "map entry_tag (other_ifd W H L off) = [256, 257, 258, 259, 262, 273, 277, 278, 279, 282, 283, 296, 338, 339]"
  by (simp add: other_ifd_def Let_def)

lemma gray_file_entries:
  assumes "length R = n"
  shows "tiff_entries (tiff_file L R (gray_ifd W H L' off sf) t) (8 + n) = gray_ifd W H L' off sf"
  using assms by (intro tiff_file_entries) (simp_all add: length_gray_ifd gray_ifd_len12)

lemma other_file_entries:
  "tiff_entries (tiff_file L [] (other_ifd W H L' off) t) 8 = other_ifd W H L' off"
  using tiff_file_entries[of "[]" 0 "other_ifd W H L' off" L t]
  by (simp add: length_other_ifd other_ifd_len12)

lemma tiff_file_ifd_offset:
  assumes "0 \<le> L" "L + 8 < 2 ^ 32"
  shows "tiff_ifd_offset (tiff_file L R es t) = 8 + nat L"
proof -
  have "(L + 8) mod 4294967296 = L + 8" using assms by simp
  then have "nat ((L + 8) mod 4294967296) = 8 + nat L" using assms(1) by simp
  then show ?thesis
    unfolding tiff_ifd_offset_def tiff_file_offset unat_word32_of_int .
qed

lemma ex_view: "slice_view ex_heap (Pix ex_buffer) = [1, 0xFFFFFFFF]"
  by (simp add: slice_view_def ex_heap_def ex_buffer_def)

lemma ex_size: "Size (Rect ex_buffer) = Pt 2 1"
  by (simp add: Size_def ex_buffer_def Pt_def)

lemma wide_ok: "buffer_ok wide_heap wide_buffer"
  by (simp add: buffer_ok_def wide_heap_def wide_buffer_def slice_ok_def Size_def Pt_def)

lemma wide_size: "Size (Rect wide_buffer) = Pt 65536 1"
  by (simp add: Size_def wide_buffer_def Pt_def)

lemma huge_ok: "buffer_ok huge_heap huge_buffer"
  by (simp add: buffer_ok_def huge_heap_def huge_buffer_def slice_ok_def Size_def Pt_def)

lemma huge_size: "Size (Rect huge_buffer) = Pt 32768 32768"
  by (simp add: Size_def huge_buffer_def Pt_def)

lemma Encode_bytes_Gray32:
  assumes "buffer_ok h p" "Size (Rect p) = Pt W H" "0 \<le> W"
  shows "Encode_bytes h (Gray32 p) =
           tiff_file (W * H * 4)
              (concat (map le32 (raster_rows (slice_view h (Pix p)) (nat W) (nat H) (nat (Stride p)))))
              (gray_ifd W H (W * H * 4) (W * H * 4 + 8) 1) res_tail"
  using Encode_Gray32[OF fresh_room assms] by (simp add: Encode_bytes_def fresh_sink_def)




section \<open>The claims on Encode\<close>

text \<open>
  C1, as amended. For a \<open>W\<close> by \<open>H\<close> \<open>Gray32\<close> buffer with the invariant of the data model,
  \<open>0 < W \<le> 65535\<close>, \<open>0 < H \<le> 65535\<close>, stride \<open>W\<close> and \<open>8 + 4 W H < 2\<^sup>3\<^sup>2\<close>, \<open>Encode\<close> to a
  sink that never fails writes the magic bytes 49 49 2A 00, the offset \<open>8 + 4 W H\<close> of the
  directory, and then the \<open>4 W H\<close> bytes of the first \<open>W H\<close> samples, little-endian, in
  order; the directory found at that offset records SampleFormat 1, BitsPerSample 32,
  ImageWidth \<open>W\<close> and ImageLength \<open>H\<close>. The 2 by 1 buffer with the samples 1 and
  \<open>0xFFFFFFFF\<close> gives the offset \<open>0x10\<close> and the raster 01 00 00 00 FF FF FF FF.
\<close>

theorem Encode_Gray32_file:
  assumes "room w = None" and "buffer_ok h p" and "Size (Rect p) = Pt W H"
    and "0 < W" and "0 < H" and "Stride p = W"
    and "W \<le> 65535" and "H \<le> 65535" and "8 + W * H * 4 < 2 ^ 32"
  shows "\<exists>out. Encode h w (Gray32 p) = Inr (w\<lparr>written := written w @ out\<rparr>) \<and>
           take 4 out = [0x49, 0x49, 0x2A, 0x00] \<and>
           int (tiff_ifd_offset out) = 8 + W * H * 4 \<and>
           take (nat (W * H * 4)) (drop 8 out)
             = concat (map le32 (take (nat (W * H)) (slice_view h (Pix p)))) \<and>
           field_value (tiff_entries out (tiff_ifd_offset out)) 339 = Some 1 \<and>
           field_value (tiff_entries out (tiff_ifd_offset out)) 258 = Some 32 \<and>
           field_value (tiff_entries out (tiff_ifd_offset out)) 256 = Some (nat W) \<and>
           field_value (tiff_entries out (tiff_ifd_offset out)) 257 = Some (nat H)"
proof -
  let ?R = "concat (map le32 (raster_rows (slice_view h (Pix p)) (nat W) (nat H) (nat (Stride p))))"
  let ?L = "W * H * 4"
  let ?es = "gray_ifd W H ?L (?L + 8) 1"
  let ?out = "tiff_file ?L ?R ?es res_tail"
  have W0: "0 \<le> W" using assms(4) by simp
  have L0: "0 \<le> ?L" using assms(4,5) by simp
  have enc: "Encode h w (Gray32 p) = Inr (w\<lparr>written := written w @ ?out\<rparr>)"
    using assms(1,2,3) W0 by (rule Encode_Gray32)
  have len: "length ?R = nat ?L" using assms(2,3) W0 by (rule raster_length)
  have dense: "?R = concat (map le32 (take (nat (W * H)) (slice_view h (Pix p))))"
    using assms(4,5,6) by (simp add: raster_rows_dense nat_mult_distrib)
  have off: "tiff_ifd_offset ?out = 8 + nat ?L"
    using L0 assms(9) by (intro tiff_file_ifd_offset) simp_all
  have ents: "tiff_entries ?out (tiff_ifd_offset ?out) = ?es"
    unfolding off using len by (rule gray_file_entries)
  have w16: "unat (word_of_int W :: uint16) = nat W" "unat (word_of_int H :: uint16) = nat H"
    using assms(4,5,7,8) by (simp_all add: unat_word16_of_int)
  have "take 4 ?out = [0x49, 0x49, 0x2A, 0x00]" by (rule tiff_file_magic)
  moreover have "int (tiff_ifd_offset ?out) = 8 + W * H * 4" using off L0 by simp
  moreover have "take (nat ?L) (drop 8 ?out) = concat (map le32 (take (nat (W * H)) (slice_view h (Pix p))))"
    using tiff_file_raster[OF len] dense by simp
  moreover have "field_value (tiff_entries ?out (tiff_ifd_offset ?out)) 339 = Some 1"
    "field_value (tiff_entries ?out (tiff_ifd_offset ?out)) 258 = Some 32"
    "field_value (tiff_entries ?out (tiff_ifd_offset ?out)) 256 = Some (nat W)"
    "field_value (tiff_entries ?out (tiff_ifd_offset ?out)) 257 = Some (nat H)"
    unfolding ents by (simp_all add: gray_ifd_fields w16)
  ultimately show ?thesis using enc by blast
qed

theorem Encode_Gray32_file_witness:
  "room fresh_sink = None \<and> buffer_ok ex_heap ex_buffer \<and> Size (Rect ex_buffer) = Pt 2 1 \<and>
   Stride ex_buffer = 2 \<and>
   (\<exists>out. Encode ex_heap fresh_sink (Gray32 ex_buffer) = Inr (fresh_sink\<lparr>written := out\<rparr>) \<and>
          take 4 out = [0x49, 0x49, 0x2A, 0x00] \<and>
          int (tiff_ifd_offset out) = 0x10 \<and>
          take 8 (drop 8 out) = [0x01, 0x00, 0x00, 0x00, 0xFF, 0xFF, 0xFF, 0xFF] \<and>
          field_value (tiff_entries out (tiff_ifd_offset out)) 339 = Some 1 \<and>
          field_value (tiff_entries out (tiff_ifd_offset out)) 258 = Some 32 \<and>
          field_value (tiff_entries out (tiff_ifd_offset out)) 256 = Some 2 \<and>
          field_value (tiff_entries out (tiff_ifd_offset out)) 257 = Some 1)"
proof -
  have st: "Stride ex_buffer = 2" by (simp add: ex_buffer_def)
  have "\<exists>out. Encode ex_heap fresh_sink (Gray32 ex_buffer)
                 = Inr (fresh_sink\<lparr>written := written fresh_sink @ out\<rparr>) \<and>
           take 4 out = [0x49, 0x49, 0x2A, 0x00] \<and>
           int (tiff_ifd_offset out) = 8 + 2 * 1 * 4 \<and>
           take (nat (2 * 1 * 4)) (drop 8 out)
             = concat (map le32 (take (nat (2 * 1)) (slice_view ex_heap (Pix ex_buffer)))) \<and>
           field_value (tiff_entries out (tiff_ifd_offset out)) 339 = Some 1 \<and>
           field_value (tiff_entries out (tiff_ifd_offset out)) 258 = Some 32 \<and>
           field_value (tiff_entries out (tiff_ifd_offset out)) 256 = Some (nat 2) \<and>
           field_value (tiff_entries out (tiff_ifd_offset out)) 257 = Some (nat 1)"
    by (rule Encode_Gray32_file [OF fresh_room ex_buffer_ok ex_size _ _ st]) simp_all
  then show ?thesis
    using fresh_room ex_buffer_ok ex_size st
    by (simp add: ex_view le32_1 le32_max fresh_sink_def)
qed

text \<open>
  C1 as stated, without the bounds, fails: for the 65536 by 1 buffer the directory records
  ImageWidth 0, since the entry is a 16-bit short; for the 32768 by 32768 buffer the offset
  field holds 8 and not \<open>8 + 2\<^sup>3\<^sup>2\<close>, since it is a 32-bit value.
\<close>

theorem Encode_Gray32_counterexample:
  "buffer_ok wide_heap wide_buffer \<and> Size (Rect wide_buffer) = Pt 65536 1 \<and>
   Stride wide_buffer = 65536 \<and>
   field_value (tiff_entries (Encode_bytes wide_heap (Gray32 wide_buffer))
                  (tiff_ifd_offset (Encode_bytes wide_heap (Gray32 wide_buffer)))) 256 = Some 0 \<and>
   field_value (tiff_entries (Encode_bytes wide_heap (Gray32 wide_buffer))
                  (tiff_ifd_offset (Encode_bytes wide_heap (Gray32 wide_buffer)))) 256
     \<noteq> Some 65536 \<and>
   buffer_ok huge_heap huge_buffer \<and> Size (Rect huge_buffer) = Pt 32768 32768 \<and>
   Stride huge_buffer = 32768 \<and>
   tiff_ifd_offset (Encode_bytes huge_heap (Gray32 huge_buffer)) = 8 \<and>
   int (tiff_ifd_offset (Encode_bytes huge_heap (Gray32 huge_buffer))) \<noteq> 8 + 32768 * 32768 * 4"
proof -
  let ?R = "concat (map le32 (raster_rows (slice_view wide_heap (Pix wide_buffer)) (nat 65536) (nat 1)
                 (nat (Stride wide_buffer))))"
  let ?es = "gray_ifd 65536 1 (65536 * 1 * 4) (65536 * 1 * 4 + 8) 1"
  have b: "Encode_bytes wide_heap (Gray32 wide_buffer) = tiff_file (65536 * 1 * 4) ?R ?es res_tail"
    by (rule Encode_bytes_Gray32[OF wide_ok wide_size]) simp
  have len: "length ?R = nat (65536 * 1 * 4)"
    by (rule raster_length[OF wide_ok wide_size]) simp
  have off: "tiff_ifd_offset (tiff_file (65536 * 1 * 4) ?R ?es res_tail) = 8 + nat (65536 * 1 * 4)"
    by (rule tiff_file_ifd_offset) simp_all
  have ents: "tiff_entries (tiff_file (65536 * 1 * 4) ?R ?es res_tail) (8 + nat (65536 * 1 * 4)) = ?es"
    using len by (rule gray_file_entries)
  have w: "field_value (tiff_entries (Encode_bytes wide_heap (Gray32 wide_buffer))
                  (tiff_ifd_offset (Encode_bytes wide_heap (Gray32 wide_buffer)))) 256 = Some 0"
    unfolding b off ents by (simp add: gray_ifd_fields unat_word16_of_int)
  have hb: "Encode_bytes huge_heap (Gray32 huge_buffer) =
      tiff_file (32768 * 32768 * 4)
        (concat (map le32 (raster_rows (slice_view huge_heap (Pix huge_buffer)) (nat 32768) (nat 32768)
                 (nat (Stride huge_buffer)))))
        (gray_ifd 32768 32768 (32768 * 32768 * 4) (32768 * 32768 * 4 + 8) 1) res_tail"
    by (rule Encode_bytes_Gray32[OF huge_ok huge_size]) simp
  have hg: "tiff_ifd_offset (Encode_bytes huge_heap (Gray32 huge_buffer)) = 8"
    unfolding hb tiff_ifd_offset_def tiff_file_offset unat_word32_of_int by simp
  show ?thesis
    using wide_ok wide_size huge_ok huge_size w hg
    by (simp add: wide_buffer_def huge_buffer_def)
qed



text \<open>
  C9. For an image that is neither a \<open>Gray32\<close> nor a \<open>GrayFloat32\<close>, with bounds of size
  \<open>W\<close> by \<open>H\<close>, \<open>Encode\<close> to a sink that never fails returns no error. It writes the magic
  bytes and the offset field \<open>8 + 4 W H\<close> (as a 32-bit value), no raster byte, and then the
  directory, which so starts at byte 8; its StripByteCounts entry is a long with the value
  \<open>4 W H\<close> (as a 32-bit value).
\<close>

theorem Encode_OtherImage_file:
  assumes "room w = None" and "Size r = Pt W H"
  shows "\<exists>out. Encode h w (OtherImage r) = Inr (w\<lparr>written := written w @ out\<rparr>) \<and>
           take 4 out = [0x49, 0x49, 0x2A, 0x00] \<and>
           le32_dec (drop 4 out) = word_of_int (8 + W * H * 4) \<and>
           (0 \<le> W * H \<and> 8 + W * H * 4 < 2 ^ 32 \<longrightarrow> int (tiff_ifd_offset out) = 8 + W * H * 4) \<and>
           map entry_tag (tiff_entries out 8)
             = [256, 257, 258, 259, 262, 273, 277, 278, 279, 282, 283, 296, 338, 339] \<and>
           field_type (tiff_entries out 8) 279 = Some 4 \<and>
           field_value (tiff_entries out 8) 279 = Some (unat (word_of_int (W * H * 4) :: uint32)) \<and>
           (0 \<le> W * H \<and> W * H * 4 < 2 ^ 32 \<longrightarrow>
              field_value (tiff_entries out 8) 279 = Some (nat (W * H * 4)))"
proof -
  let ?L = "W * H * 4"
  let ?es = "other_ifd W H ?L (?L + 8)"
  let ?out = "tiff_file ?L [] ?es ([8, 0, 8, 0, 8, 0, 8, 0] @ res_tail)"
  have enc: "Encode h w (OtherImage r) = Inr (w\<lparr>written := written w @ ?out\<rparr>)"
    using assms by (rule Encode_OtherImage)
  have ents: "tiff_entries ?out 8 = ?es" by (rule other_file_entries)
  have o1: "le32_dec (drop 4 ?out) = word_of_int (8 + ?L)"
    unfolding tiff_file_offset by (simp add: add.commute)
  have o2: "int (tiff_ifd_offset ?out) = 8 + ?L" if "0 \<le> W * H \<and> 8 + ?L < 2 ^ 32"
  proof -
    have "tiff_ifd_offset ?out = 8 + nat ?L"
      using that by (intro tiff_file_ifd_offset) simp_all
    then show ?thesis using that by simp
  qed
  have v: "field_value ?es 279 = Some (unat (word_of_int ?L :: uint32))"
    by (simp add: other_ifd_fields)
  have v2: "field_value ?es 279 = Some (nat ?L)" if "0 \<le> W * H \<and> ?L < 2 ^ 32"
  proof -
    have "?L mod 4294967296 = ?L" using that by simp
    then show ?thesis unfolding v unat_word32_of_int by simp
  qed
  have o2': "0 \<le> W * H \<and> 8 + ?L < 2 ^ 32 \<longrightarrow> int (tiff_ifd_offset ?out) = 8 + ?L"
    using o2 by blast
  have v2': "0 \<le> W * H \<and> ?L < 2 ^ 32 \<longrightarrow> field_value (tiff_entries ?out 8) 279 = Some (nat ?L)"
    unfolding ents using v2 by blast
  show ?thesis
  proof (rule exI[of _ ?out], intro conjI)
    show "Encode h w (OtherImage r) = Inr (w\<lparr>written := written w @ ?out\<rparr>)" by (rule enc)
    show "take 4 ?out = [0x49, 0x49, 0x2A, 0x00]" by (rule tiff_file_magic)
    show "le32_dec (drop 4 ?out) = word_of_int (8 + ?L)" by (rule o1)
    show "0 \<le> W * H \<and> 8 + ?L < 2 ^ 32 \<longrightarrow> int (tiff_ifd_offset ?out) = 8 + ?L" by (rule o2')
    show "map entry_tag (tiff_entries ?out 8)
             = [256, 257, 258, 259, 262, 273, 277, 278, 279, 282, 283, 296, 338, 339]"
      unfolding ents by (rule other_ifd_tags)
    show "field_type (tiff_entries ?out 8) 279 = Some 4"
      unfolding ents by (simp add: other_ifd_fields)
    show "field_value (tiff_entries ?out 8) 279 = Some (unat (word_of_int ?L :: uint32))"
      unfolding ents by (rule v)
    show "0 \<le> W * H \<and> ?L < 2 ^ 32 \<longrightarrow> field_value (tiff_entries ?out 8) 279 = Some (nat ?L)"
      by (rule v2')
  qed
qed

theorem Encode_OtherImage_file_witness:
  "room fresh_sink = None \<and> Size \<lparr>Min_pt = Pt 0 0, Max_pt = Pt 3 2\<rparr> = Pt 3 2 \<and>
   (\<exists>out. Encode ex_heap fresh_sink (OtherImage \<lparr>Min_pt = Pt 0 0, Max_pt = Pt 3 2\<rparr>)
            = Inr (fresh_sink\<lparr>written := out\<rparr>) \<and>
          take 4 out = [0x49, 0x49, 0x2A, 0x00] \<and>
          le32_dec (drop 4 out) = 32 \<and>
          int (tiff_ifd_offset out) = 32 \<and>
          map entry_tag (tiff_entries out 8)
            = [256, 257, 258, 259, 262, 273, 277, 278, 279, 282, 283, 296, 338, 339] \<and>
          field_type (tiff_entries out 8) 279 = Some 4 \<and>
          field_value (tiff_entries out 8) 279 = Some 24)"
proof -
  have s: "Size \<lparr>Min_pt = Pt 0 0, Max_pt = Pt 3 2\<rparr> = Pt 3 2"
    by (simp add: Size_def Pt_def)
  have "\<exists>out. Encode ex_heap fresh_sink (OtherImage \<lparr>Min_pt = Pt 0 0, Max_pt = Pt 3 2\<rparr>)
                 = Inr (fresh_sink\<lparr>written := written fresh_sink @ out\<rparr>) \<and>
           take 4 out = [0x49, 0x49, 0x2A, 0x00] \<and>
           le32_dec (drop 4 out) = word_of_int (8 + 3 * 2 * 4) \<and>
           (0 \<le> (3::int) * 2 \<and> 8 + (3::int) * 2 * 4 < 2 ^ 32 \<longrightarrow>
              int (tiff_ifd_offset out) = 8 + 3 * 2 * 4) \<and>
           map entry_tag (tiff_entries out 8)
             = [256, 257, 258, 259, 262, 273, 277, 278, 279, 282, 283, 296, 338, 339] \<and>
           field_type (tiff_entries out 8) 279 = Some 4 \<and>
           field_value (tiff_entries out 8) 279 = Some (unat (word_of_int (3 * 2 * 4) :: uint32)) \<and>
           (0 \<le> (3::int) * 2 \<and> (3::int) * 2 * 4 < 2 ^ 32 \<longrightarrow>
              field_value (tiff_entries out 8) 279 = Some (nat (3 * 2 * 4)))"
    by (rule Encode_OtherImage_file [OF fresh_room s])
  then show ?thesis
    using fresh_room s by (simp add: fresh_sink_def)
qed





end
